theory Spec2Isabelle
  imports Main
begin

section \<open>JSON values and JSON-RPC frames\<close>

text \<open>
  The transport of \<^verbatim>\<open>src/clients/transports/webSocket.ts\<close> handles untyped JSON: the
  \<^verbatim>\<open>error\<close>, \<^verbatim>\<open>id\<close>, \<^verbatim>\<open>result\<close>, \<^verbatim>\<open>method\<close> and \<^verbatim>\<open>params\<close> fields of a frame
  may each be absent (\<^verbatim>\<open>undefined\<close>) or hold any JSON value.
\<close>

datatype json =
    JUndefined
  | JNull
  | JBool bool
  | JNum int
  | JStr string
  | JArr "json list"
  | JObj "(string \<times> json) list"

text \<open>JavaScript truthiness, as tested by \<^verbatim>\<open>if (error)\<close> and \<^verbatim>\<open>if (response.error)\<close>.\<close>

fun truthy :: "json \<Rightarrow> bool" where
  "truthy JUndefined = False"
| "truthy JNull = False"
| "truthy (JBool b) = b"
| "truthy (JNum n) = (n \<noteq> 0)"
| "truthy (JStr s) = (s \<noteq> [])"
| "truthy (JArr xs) = True"
| "truthy (JObj fs) = True"

text \<open>\<^verbatim>\<open>typeof v === 'number'\<close>.\<close>

fun typeof_number :: "json \<Rightarrow> bool" where
  "typeof_number (JNum n) = True"
| "typeof_number v = False"

text \<open>The request body \<^verbatim>\<open>{ method, params }\<close> (\<open>method\<close> is a keyword of Isabelle).\<close>

record body =
  body_method :: string
  body_params :: json

text \<open>An inbound frame (\<^verbatim>\<open>RpcResponse\<close>); \<^verbatim>\<open>JUndefined\<close> is an absent field.\<close>

record rpc_response =
  response_error :: json
  response_id :: json
  response_result :: json
  response_method :: json
  response_params :: json

text \<open>
  A socket handle. The code compares handles with \<^verbatim>\<open>===\<close> (object identity), so a handle
  is modelled by its identity.
\<close>

type_synonym socket = nat

datatype ready_state = CONNECTING | OPEN | CLOSING | CLOSED

text \<open>Values that are thrown or passed to \<^verbatim>\<open>reject\<close> and \<^verbatim>\<open>onError\<close>.\<close>

datatype thrown =
    Payload json
  | ConnectionClosed
  | ReferenceError
  | SocketError string

section \<open>The transport factory and \<^verbatim>\<open>request\<close>\<close>

datatype request_error =
    RpcRequestError body string json
  | Propagated thrown

datatype transport_error = UrlRequiredError

text \<open>
  \<^verbatim>\<open>const url_ = url || chain?.rpcUrls.default.webSocket?.[0]; if (!url_) throw new UrlRequiredError()\<close>.
  An absent or empty string is falsy.
\<close>

definition falsy_url :: "string option \<Rightarrow> bool" where
  "falsy_url u = (case u of None \<Rightarrow> True | Some s \<Rightarrow> s = [])"

definition webSocket_url :: "string option \<Rightarrow> string option \<Rightarrow> transport_error + string" where
  "webSocket_url url chain_url =
     (let url' = (if falsy_url url then chain_url else url)
      in case url' of
           None \<Rightarrow> Inl UrlRequiredError
         | Some s \<Rightarrow> if s = [] then Inl UrlRequiredError else Inr s)"

text \<open>\<^verbatim>\<open>const timeout = timeout_ ?? config.timeout ?? 10_000\<close>.\<close>

definition webSocket_timeout :: "nat option \<Rightarrow> nat option \<Rightarrow> nat" where
  "webSocket_timeout timeout' config_timeout =
     (case timeout' of
        Some t \<Rightarrow> t
      | None \<Rightarrow> (case config_timeout of Some t \<Rightarrow> t | None \<Rightarrow> 10000))"

text \<open>
  \<^verbatim>\<open>request({ method, params })\<close>. The collaborators \<^verbatim>\<open>getSocket\<close> and
  \<^verbatim>\<open>rpc.webSocketAsync\<close> live in \<^verbatim>\<open>utils/rpc.js\<close> and are parameters here; each either
  rejects (\<open>Inl\<close>) or yields its value (\<open>Inr\<close>). A rejection of either propagates
  through the \<^verbatim>\<open>await\<close>.
\<close>

definition request ::
  "(string \<Rightarrow> thrown + socket) \<Rightarrow> (socket \<Rightarrow> body \<Rightarrow> nat \<Rightarrow> thrown + rpc_response) \<Rightarrow>
   string \<Rightarrow> nat \<Rightarrow> string \<Rightarrow> json \<Rightarrow> request_error + json" where
  "request getSocket webSocketAsync url' timeout m ps =
     (let b = \<lparr>body_method = m, body_params = ps\<rparr>
      in case getSocket url' of
           Inl e \<Rightarrow> Inl (Propagated e)
         | Inr socket \<Rightarrow>
             (case webSocketAsync socket b timeout of
                Inl e \<Rightarrow> Inl (Propagated e)
              | Inr resp \<Rightarrow>
                  if truthy (response_error resp)
                  then Inl (RpcRequestError b url' (response_error resp))
                  else Inr (response_result resp)))"

section \<open>The subscription closure\<close>

text \<open>The promise awaited by \<^verbatim>\<open>subscribe\<close> (\<^verbatim>\<open>await new Promise(...)\<close>).\<close>

datatype promise = Pending | Fulfilled rpc_response | Rejected thrown

text \<open>
  A promise returned by \<^verbatim>\<open>cleanup\<close>. Its executor either returns without handing
  \<^verbatim>\<open>resolve\<close> to anyone (\<open>NoResolver\<close>: nothing can settle it any more), or passes
  \<^verbatim>\<open>resolve\<close> as the \<^verbatim>\<open>onResponse\<close> of the \<^verbatim>\<open>eth_unsubscribe\<close> call
  (\<open>OnTeardownResponse\<close>), or throws (\<open>Threw\<close>). \<open>Done\<close> is the promise after that
  \<^verbatim>\<open>onResponse\<close> was called.
\<close>

datatype cleanup_promise =
    NoResolver
  | OnTeardownResponse
  | Done rpc_response
  | Threw thrown

text \<open>
  The variables closed over by one \<^verbatim>\<open>subscribe\<close> call (\<open>active\<close>,
  \<open>subscriptionSocket\<close>, \<open>subscriptionId\<close>, \<open>unsubscribeSocket\<close>, the awaited promise
  and the arguments), followed by what the closure can observe or cause outside itself:
  the \<^verbatim>\<open>readyState\<close> of each socket, whether \<open>onSocketCreated\<close> is still registered
  with the socket registry, the sockets on which \<open>onSocketCreated\<close> ran to completion (so
  that its \<^verbatim>\<open>onResponse\<close> and its close handler exist), the messages handed to the
  socket, the calls of the consumer's callbacks, the promises made by \<open>cleanup\<close>, and the
  exceptions that escaped a callback.
\<close>

record subscription =
  sub_params :: json
  has_onError :: bool
  active :: bool
  subscriptionSocket :: "socket option"
  subscriptionId :: json
  unsubscribeSocket :: bool
  first_response :: promise
  subscribeSocket_settled :: bool
  readyState :: "socket \<Rightarrow> ready_state"
  registered :: bool
  opened :: "socket list"
  sent :: "(socket \<times> body) list"
  onData_calls :: "json list"
  onError_calls :: "thrown list"
  cleanups :: "cleanup_promise list"
  uncaught :: "thrown list"

text \<open>
  Modelled from the spec: \<^verbatim>\<open>rpc.webSocket\<close> of \<^verbatim>\<open>utils/rpc.js\<close>, which is not part of
  the sources at hand. The spec's dispatcher writes the encoded frame to the socket, and
  the socket primitive's \<^verbatim>\<open>send(handle, bytes)\<close> "fails with ConnectionClosed if not
  open". The frame's numeric id is chosen by the dispatcher and is not modelled.
\<close>

definition rpc_webSocket :: "socket \<Rightarrow> body \<Rightarrow> subscription \<Rightarrow> thrown + subscription" where
  "rpc_webSocket socket b st =
     (if readyState st socket = OPEN
      then Inr (st\<lparr>sent := sent st @ [(socket, b)]\<rparr>)
      else Inl ConnectionClosed)"

text \<open>\<^verbatim>\<open>resolve\<close> and \<^verbatim>\<open>reject\<close> of the awaited promise: only the first call settles it.\<close>

definition resolve :: "rpc_response \<Rightarrow> subscription \<Rightarrow> subscription" where
  "resolve r st =
     (case first_response st of
        Pending \<Rightarrow> st\<lparr>first_response := Fulfilled r\<rparr>
      | Fulfilled r' \<Rightarrow> st
      | Rejected e \<Rightarrow> st)"

definition reject :: "thrown \<Rightarrow> subscription \<Rightarrow> subscription" where
  "reject e st =
     (case first_response st of
        Pending \<Rightarrow> st\<lparr>first_response := Rejected e\<rparr>
      | Fulfilled r' \<Rightarrow> st
      | Rejected e' \<Rightarrow> st)"

text \<open>\<^verbatim>\<open>onError?.(error)\<close> and \<^verbatim>\<open>onData(response.params)\<close>: the calls are recorded.\<close>

definition call_onError :: "thrown \<Rightarrow> subscription \<Rightarrow> subscription" where
  "call_onError e st =
     (if has_onError st then st\<lparr>onError_calls := onError_calls st @ [e]\<rparr> else st)"

definition call_onData :: "json \<Rightarrow> subscription \<Rightarrow> subscription" where
  "call_onData d st = st\<lparr>onData_calls := onData_calls st @ [d]\<rparr>"

text \<open>
  \<^verbatim>\<open>subscribe\<close> returns its handle in the continuation of the \<^verbatim>\<open>await\<close>, which runs as
  a microtask right after the callback that called \<^verbatim>\<open>resolve\<close>, before any other socket
  event. From then on \<^verbatim>\<open>cleanup\<close> is initialised and \<^verbatim>\<open>unsubscribe\<close> can be called.
  If the promise is rejected the \<^verbatim>\<open>await\<close> throws and no handle is ever returned.
\<close>

definition handle_returned :: "subscription \<Rightarrow> bool" where
  "handle_returned st =
     (case first_response st of
        Pending \<Rightarrow> False
      | Fulfilled r \<Rightarrow> True
      | Rejected e \<Rightarrow> False)"

text \<open>
  Modelled from the spec: the callback that \<^verbatim>\<open>subscribeSocket\<close> of \<^verbatim>\<open>utils/rpc.js\<close>
  resolves with, which is not part of the sources at hand. The spec's registry "returns an
  unregister function" for a listener: after the call \<open>onSocketCreated\<close> is not invoked
  any more.
\<close>

definition unregister :: "subscription \<Rightarrow> subscription" where
  "unregister st = st\<lparr>registered := False\<rparr>"

text \<open>
  \<^verbatim>\<open>cleanup\<close>: \<^verbatim>\<open>unsubscribeSocket?.()\<close>, then the executor of the promise it returns.
  The result is that promise and the state \<^verbatim>\<open>cleanup\<close> leaves.
\<close>

definition cleanup :: "subscription \<Rightarrow> cleanup_promise \<times> subscription" where
  "cleanup st =
     (let st1 = (if unsubscribeSocket st then unregister st else st)
      in if subscriptionId st1 = JUndefined then (NoResolver, st1)
         else case subscriptionSocket st1 of
                None \<Rightarrow> (NoResolver, st1)
              | Some socket \<Rightarrow>
                  if readyState st1 socket \<noteq> OPEN then (NoResolver, st1)
                  else (case rpc_webSocket socket
                               \<lparr>body_method = ''eth_unsubscribe'', body_params = JArr [subscriptionId st1]\<rparr> st1 of
                          Inl e \<Rightarrow> (Threw e, st1)
                        | Inr st2 \<Rightarrow> (OnTeardownResponse, st2)))"

definition track :: "cleanup_promise \<Rightarrow> subscription \<Rightarrow> subscription" where
  "track p st = st\<lparr>cleanups := cleanups st @ [p]\<rparr>"

text \<open>\<^verbatim>\<open>unsubscribe() { active = false; return cleanup() }\<close>.\<close>

definition unsubscribe :: "subscription \<Rightarrow> subscription" where
  "unsubscribe st = (case cleanup (st\<lparr>active := False\<rparr>) of (p, st1) \<Rightarrow> track p st1)"

text \<open>
  The \<^verbatim>\<open>onResponse\<close> of the \<^verbatim>\<open>eth_subscribe\<close> call. \<^verbatim>\<open>cleanup\<close> is a \<^verbatim>\<open>const\<close>
  declared after the \<^verbatim>\<open>await\<close>: calling it before the continuation has run throws a
  ReferenceError out of the callback. A rejection of the promise \<^verbatim>\<open>cleanup()\<close> returns
  goes to \<^verbatim>\<open>onError\<close>.
\<close>

definition onResponse :: "rpc_response \<Rightarrow> subscription \<Rightarrow> subscription" where
  "onResponse response st =
     (if truthy (response_error response)
      then call_onError (Payload (response_error response))
             (reject (Payload (response_error response)) st)
      else if typeof_number (response_id response)
      then (let st1 = resolve response st;
                st2 = st1\<lparr>subscriptionId := response_result response\<rparr>
            in if \<not> active st2
               then (if handle_returned st
                     then (case cleanup st2 of
                             (p, st3) \<Rightarrow>
                               (case p of
                                  Threw e \<Rightarrow> call_onError e (track p st3)
                                | NoResolver \<Rightarrow> track p st3
                                | OnTeardownResponse \<Rightarrow> track p st3
                                | Done r \<Rightarrow> track p st3))
                     else st2\<lparr>uncaught := uncaught st2 @ [ReferenceError]\<rparr>)
               else st2)
      else if response_method response \<noteq> JStr ''eth_subscription'' then st
      else call_onData (response_params response) st)"

text \<open>
  \<^verbatim>\<open>onSocketCreated(socket)\<close>. When \<^verbatim>\<open>rpc.webSocket\<close> throws, the exception leaves the
  callback after the two assignments and no close handler is returned.
\<close>

definition onSocketCreated :: "socket \<Rightarrow> subscription \<Rightarrow> subscription" where
  "onSocketCreated socket st =
     (let st1 = st\<lparr>subscriptionSocket := Some socket, subscriptionId := JUndefined\<rparr>
      in case rpc_webSocket socket \<lparr>body_method = ''eth_subscribe'', body_params = sub_params st1\<rparr> st1 of
           Inl e \<Rightarrow> st1\<lparr>uncaught := uncaught st1 @ [e]\<rparr>
         | Inr st2 \<Rightarrow> st2\<lparr>opened := opened st2 @ [socket]\<rparr>)"

text \<open>The close handler that \<^verbatim>\<open>onSocketCreated(socket)\<close> returns.\<close>

definition onSocketClosed :: "socket \<Rightarrow> subscription \<Rightarrow> subscription" where
  "onSocketClosed socket st =
     (if subscriptionSocket st = Some socket
      then st\<lparr>subscriptionSocket := None, subscriptionId := JUndefined\<rparr>
      else st)"

text \<open>
  The state after the synchronous part of \<^verbatim>\<open>subscribe({ params, onData, onError })\<close>:
  the variables are initialised and \<open>onSocketCreated\<close> has been passed to
  \<^verbatim>\<open>subscribeSocket\<close>.
\<close>

definition subscribe :: "json \<Rightarrow> bool \<Rightarrow> (socket \<Rightarrow> ready_state) \<Rightarrow> subscription" where
  "subscribe ps with_onError rs =
     \<lparr>sub_params = ps, has_onError = with_onError, active = True,
      subscriptionSocket = None, subscriptionId = JUndefined, unsubscribeSocket = False,
      first_response = Pending, subscribeSocket_settled = False,
      readyState = rs, registered = True, opened = [], sent = [],
      onData_calls = [], onError_calls = [], cleanups = [], uncaught = []\<rparr>"

section \<open>Events\<close>

text \<open>
  Modelled from the spec: when the callbacks of the closure are invoked is decided by
  \<^verbatim>\<open>subscribeSocket\<close> and \<^verbatim>\<open>rpc.webSocket\<close> of \<^verbatim>\<open>utils/rpc.js\<close>, which are not part of
  the sources at hand. Following the spec's registry and dispatcher, \<open>onSocketCreated\<close>
  is invoked with each socket that is created while the listener is registered; the close
  handler it returned is invoked when that socket closes; and the \<^verbatim>\<open>onResponse\<close> of a
  call is invoked with the frames that answer or follow the call. Nothing is assumed
  about the order and the number of these invocations.

  Everything after \<^verbatim>\<open>subscribe\<close>'s synchronous part happens in callbacks. An event is one
  callback invocation by the registry, the dispatcher or the consumer, or a change of a
  socket's \<^verbatim>\<open>readyState\<close>. An event whose callback does not exist (yet, or any more)
  leaves the state as it is: \<^verbatim>\<open>unsubscribe\<close> exists once the handle has been returned,
  the \<^verbatim>\<open>onResponse\<close> and the close handler of a socket once \<open>onSocketCreated\<close> has
  returned for it, and the resolver of the \<open>k\<close>-th promise of \<^verbatim>\<open>cleanup\<close> once it has
  been passed to \<^verbatim>\<open>rpc.webSocket\<close>.
\<close>

datatype event =
    SubscribeSocketResolved
  | SubscribeSocketRejected thrown
  | SocketCreated socket
  | SocketClosed socket
  | Frame socket rpc_response
  | Unsubscribe
  | TeardownResponse nat rpc_response
  | ReadyStateChange socket ready_state

fun step :: "event \<Rightarrow> subscription \<Rightarrow> subscription" where
  "step SubscribeSocketResolved st =
     (if subscribeSocket_settled st then st
      else st\<lparr>unsubscribeSocket := True, subscribeSocket_settled := True\<rparr>)"
| "step (SubscribeSocketRejected e) st =
     (if subscribeSocket_settled st then st
      else call_onError e (reject e (st\<lparr>subscribeSocket_settled := True\<rparr>)))"
| "step (SocketCreated socket) st =
     (if registered st then onSocketCreated socket st else st)"
| "step (SocketClosed socket) st =
     (if socket \<in> set (opened st) then onSocketClosed socket st else st)"
| "step (Frame socket response) st =
     (if socket \<in> set (opened st) then onResponse response st else st)"
| "step Unsubscribe st =
     (if handle_returned st then unsubscribe st else st)"
| "step (TeardownResponse k response) st =
     (if k < length (cleanups st) \<and> cleanups st ! k = OnTeardownResponse
      then st\<lparr>cleanups := (cleanups st)[k := Done response]\<rparr>
      else st)"
| "step (ReadyStateChange socket rs) st =
     st\<lparr>readyState := (readyState st)(socket := rs)\<rparr>"

fun run :: "event list \<Rightarrow> subscription \<Rightarrow> subscription" where
  "run [] st = st"
| "run (e # es) st = run es (step e st)"

text \<open>The teardown messages among the messages handed to the sockets.\<close>

definition teardowns :: "subscription \<Rightarrow> (socket \<times> body) list" where
  "teardowns st = filter (\<lambda>m. body_method (snd m) = ''eth_unsubscribe'') (sent st)"

definition open_calls :: "subscription \<Rightarrow> (socket \<times> body) list" where
  "open_calls st = filter (\<lambda>m. body_method (snd m) = ''eth_subscribe'') (sent st)"

text \<open>An acknowledgement of an open call: a frame without error whose id is a number.\<close>

definition is_ack :: "rpc_response \<Rightarrow> bool" where
  "is_ack r = (\<not> truthy (response_error r) \<and> typeof_number (response_id r))"

text \<open>A push notification: the frames that reach the last line of \<^verbatim>\<open>onResponse\<close>.\<close>

definition is_push :: "rpc_response \<Rightarrow> bool" where
  "is_push r = (\<not> truthy (response_error r) \<and> \<not> typeof_number (response_id r)
      \<and> response_method r = JStr ''eth_subscription'')"

text \<open>
  The number of events in a sequence whose callback can reach a call of \<^verbatim>\<open>cleanup\<close>:
  the \<^verbatim>\<open>unsubscribe()\<close> calls, and the acknowledgements that arrive once
  \<^verbatim>\<open>unsubscribe()\<close> has been called (the flag).
\<close>

fun cleanup_invocations :: "bool \<Rightarrow> event list \<Rightarrow> nat" where
  "cleanup_invocations unsubscribed [] = 0"
| "cleanup_invocations unsubscribed (Unsubscribe # evs) = Suc (cleanup_invocations True evs)"
| "cleanup_invocations unsubscribed (Frame socket r # evs) =
     (if unsubscribed \<and> is_ack r then 1 else 0) + cleanup_invocations unsubscribed evs"
| "cleanup_invocations unsubscribed (e # evs) = cleanup_invocations unsubscribed evs"

subsection \<open>Example frames and arguments\<close>

definition newHeads :: json where
  "newHeads = JArr [JStr ''newHeads'']"

definition always_open :: "socket \<Rightarrow> ready_state" where
  "always_open s = OPEN"

definition ack :: "int \<Rightarrow> string \<Rightarrow> rpc_response" where
  "ack n sid = \<lparr>response_error = JUndefined, response_id = JNum n, response_result = JStr sid,
      response_method = JUndefined, response_params = JUndefined\<rparr>"

definition failure :: "int \<Rightarrow> string \<Rightarrow> rpc_response" where
  "failure n msg = \<lparr>response_error = JObj [(''code'', JNum (-32000)), (''message'', JStr msg)],
      response_id = JNum n, response_result = JUndefined,
      response_method = JUndefined, response_params = JUndefined\<rparr>"

definition push :: "string \<Rightarrow> json \<Rightarrow> rpc_response" where
  "push sid d = \<lparr>response_error = JUndefined, response_id = JUndefined, response_result = JUndefined,
      response_method = JStr ''eth_subscription'',
      response_params = JObj [(''subscription'', JStr sid), (''result'', d)]\<rparr>"

section \<open>Basic facts\<close>

lemmas model_defs = newHeads_def always_open_def ack_def failure_def push_def subscribe_def
  onSocketCreated_def onSocketClosed_def onResponse_def unsubscribe_def cleanup_def
  unregister_def track_def
  rpc_webSocket_def resolve_def reject_def call_onError_def call_onData_def handle_returned_def
  teardowns_def open_calls_def is_ack_def is_push_def Let_def

lemma cleanup_sends:
  "subscriptionId st \<noteq> JUndefined \<Longrightarrow> subscriptionSocket st = Some s \<Longrightarrow>
   readyState st s = OPEN \<Longrightarrow>
   cleanup st = (OnTeardownResponse,
      st\<lparr>registered := registered st \<and> \<not> unsubscribeSocket st,
         sent := sent st @ [(s, \<lparr>body_method = ''eth_unsubscribe'', body_params = JArr [subscriptionId st]\<rparr>)]\<rparr>)"
  by (simp add: cleanup_def unregister_def rpc_webSocket_def Let_def)

lemma cleanup_skips:
  "subscriptionId st = JUndefined \<or> subscriptionSocket st = None
     \<or> (\<exists>s. subscriptionSocket st = Some s \<and> readyState st s \<noteq> OPEN) \<Longrightarrow>
   cleanup st = (NoResolver, st\<lparr>registered := registered st \<and> \<not> unsubscribeSocket st\<rparr>)"
  by (auto simp add: cleanup_def unregister_def rpc_webSocket_def Let_def split: option.splits)

lemma cleanup_cases:
  obtains (sends) s where "subscriptionId st \<noteq> JUndefined" "subscriptionSocket st = Some s"
      "readyState st s = OPEN"
      "cleanup st = (OnTeardownResponse,
         st\<lparr>registered := registered st \<and> \<not> unsubscribeSocket st,
            sent := sent st @ [(s, \<lparr>body_method = ''eth_unsubscribe'', body_params = JArr [subscriptionId st]\<rparr>)]\<rparr>)"
  | (skips) "subscriptionId st = JUndefined \<or> subscriptionSocket st = None
     \<or> (\<exists>s. subscriptionSocket st = Some s \<and> readyState st s \<noteq> OPEN)"
     "cleanup st = (NoResolver, st\<lparr>registered := registered st \<and> \<not> unsubscribeSocket st\<rparr>)"
  using cleanup_sends [of st] cleanup_skips [of st] by (cases "subscriptionSocket st") auto

lemma run_append: "run (xs @ ys) st = run ys (run xs st)"
  by (induction xs arbitrary: st) simp_all

lemma run_snoc: "run (xs @ [e]) st = step e (run xs st)"
  by (simp add: run_append)

section \<open>Teardown messages\<close>

lemma teardowns_unsubscribe: "length (teardowns (unsubscribe st)) \<le> Suc (length (teardowns st))"
  by (cases "st\<lparr>active := False\<rparr>" rule: cleanup_cases)
     (simp_all add: unsubscribe_def track_def teardowns_def)

lemma teardowns_onResponse:
  "length (teardowns (onResponse r st))
     \<le> length (teardowns st) + (if \<not> active st \<and> is_ack r then 1 else 0)"
proof (cases "is_ack r")
  case False
  then show ?thesis
    by (auto simp add: onResponse_def is_ack_def teardowns_def call_onError_def call_onData_def
        reject_def split: promise.splits)
next
  case True
  let ?st2 = "(resolve r st)\<lparr>subscriptionId := response_result r\<rparr>"
  have s2: "sent ?st2 = sent st" "active ?st2 = active st"
    by (simp_all add: resolve_def split: promise.splits)
  show ?thesis
    using True s2
    by (cases ?st2 rule: cleanup_cases)
       (simp_all add: onResponse_def is_ack_def teardowns_def track_def Let_def)
qed

lemma active_onResponse: "active (onResponse r st) = active st"
proof (cases "active st")
  case True
  then show ?thesis
    by (simp add: onResponse_def call_onError_def call_onData_def reject_def resolve_def Let_def
        split: promise.splits)
next
  case False
  then show ?thesis
    by (cases "(resolve r st)\<lparr>subscriptionId := response_result r\<rparr>" rule: cleanup_cases)
       (auto simp add: onResponse_def track_def call_onError_def call_onData_def reject_def
          resolve_def Let_def split: promise.splits)
qed

lemma active_unsubscribe: "\<not> active (unsubscribe st)"
  by (cases "st\<lparr>active := False\<rparr>" rule: cleanup_cases)
     (simp_all add: unsubscribe_def track_def)

lemma active_step:
  "active (step e st) = (active st \<and> \<not> (e = Unsubscribe \<and> handle_returned st))"
proof (cases e)
  case (Frame socket r)
  then show ?thesis by (simp add: active_onResponse)
next
  case Unsubscribe
  then show ?thesis by (simp add: active_unsubscribe)
qed (simp_all add: onSocketCreated_def onSocketClosed_def rpc_webSocket_def
       call_onError_def reject_def Let_def split: promise.splits)

lemma teardowns_step:
  "length (teardowns (step e st))
     \<le> length (teardowns st) + cleanup_invocations (\<not> active st) [e]"
proof (cases e)
  case (Frame socket r)
  then show ?thesis
    using teardowns_onResponse [of r st] by (auto split: if_splits)
next
  case Unsubscribe
  then show ?thesis
    using teardowns_unsubscribe [of st] by simp
qed (simp_all add: teardowns_def onSocketCreated_def onSocketClosed_def rpc_webSocket_def
       call_onError_def reject_def Let_def split: promise.splits)

lemma cleanup_invocations_mono:
  "cleanup_invocations False evs \<le> cleanup_invocations True evs"
proof (induction evs)
  case Nil
  show ?case by simp
next
  case (Cons e evs)
  then show ?case by (cases e) simp_all
qed

lemma cleanup_invocations_Cons:
  "cleanup_invocations b [e] + cleanup_invocations (b \<or> e = Unsubscribe) evs
     = cleanup_invocations b (e # evs)"
  by (cases e) simp_all

lemma teardowns_run:
  "length (teardowns (run evs st))
     \<le> length (teardowns st) + cleanup_invocations (\<not> active st) evs"
proof (induction evs arbitrary: st)
  case Nil
  show ?case by simp
next
  case (Cons e evs)
  let ?b = "\<not> active st"
  have later: "cleanup_invocations (\<not> active (step e st)) evs
                 \<le> cleanup_invocations (?b \<or> e = Unsubscribe) evs"
  proof (cases "?b \<or> e = Unsubscribe")
    case True
    then show ?thesis
      using cleanup_invocations_mono [of evs] by (cases "active (step e st)") simp_all
  next
    case False
    then show ?thesis by (simp add: active_step)
  qed
  have "length (teardowns (run (e # evs) st))
          \<le> length (teardowns (step e st)) + cleanup_invocations (\<not> active (step e st)) evs"
    using Cons.IH [of "step e st"] by simp
  also have "\<dots> \<le> (length (teardowns st) + cleanup_invocations ?b [e])
                    + cleanup_invocations (?b \<or> e = Unsubscribe) evs"
    using teardowns_step [of e st] later by linarith
  also have "\<dots> = length (teardowns st) + cleanup_invocations ?b (e # evs)"
    using cleanup_invocations_Cons [of ?b e evs] by simp
  finally show ?case .
qed

lemma unsubscribe_twice:
  "(unsubscribe (unsubscribe st))\<lparr>sent := ms, cleanups := ps\<rparr>
     = (unsubscribe st)\<lparr>sent := ms, cleanups := ps\<rparr>"
proof (cases "st\<lparr>active := False\<rparr>" rule: cleanup_cases)
  case (sends s)
  let ?st1 = "unsubscribe st"
  have one: "?st1 = (st\<lparr>active := False\<rparr>)\<lparr>registered := registered st \<and> \<not> unsubscribeSocket st,
      sent := sent st @ [(s, \<lparr>body_method = ''eth_unsubscribe'', body_params = JArr [subscriptionId st]\<rparr>)],
      cleanups := cleanups st @ [OnTeardownResponse]\<rparr>"
    using sends by (simp add: unsubscribe_def track_def)
  have "cleanup (?st1\<lparr>active := False\<rparr>) = (OnTeardownResponse,
      (?st1\<lparr>active := False\<rparr>)\<lparr>registered := registered ?st1 \<and> \<not> unsubscribeSocket ?st1,
         sent := sent ?st1 @ [(s, \<lparr>body_method = ''eth_unsubscribe'', body_params = JArr [subscriptionId ?st1]\<rparr>)]\<rparr>)"
    using sends cleanup_sends [of "?st1\<lparr>active := False\<rparr>" s] by (simp add: one)
  then show ?thesis
    unfolding unsubscribe_def [of ?st1] by (simp add: track_def) (simp add: one)
next
  case skips
  let ?st1 = "unsubscribe st"
  have one: "?st1 = (st\<lparr>active := False\<rparr>)\<lparr>registered := registered st \<and> \<not> unsubscribeSocket st,
      cleanups := cleanups st @ [NoResolver]\<rparr>"
    using skips by (simp add: unsubscribe_def track_def)
  have "cleanup (?st1\<lparr>active := False\<rparr>) = (NoResolver,
      (?st1\<lparr>active := False\<rparr>)\<lparr>registered := registered ?st1 \<and> \<not> unsubscribeSocket ?st1\<rparr>)"
    using skips cleanup_skips [of "?st1\<lparr>active := False\<rparr>"] by (simp add: one)
  then show ?thesis
    unfolding unsubscribe_def [of ?st1] by (simp add: track_def) (simp add: one)
qed

lemma unsubscribe_sends:
  assumes "subscriptionId st \<noteq> JUndefined" and "subscriptionSocket st = Some socket"
    and "readyState st socket = OPEN"
  shows "unsubscribe st = st\<lparr>active := False,
      registered := registered st \<and> \<not> unsubscribeSocket st,
      sent := sent st @ [(socket, \<lparr>body_method = ''eth_unsubscribe'',
                                     body_params = JArr [subscriptionId st]\<rparr>)],
      cleanups := cleanups st @ [OnTeardownResponse]\<rparr>"
  using assms cleanup_sends [of "st\<lparr>active := False\<rparr>" socket]
  by (simp add: unsubscribe_def track_def)

lemma second_unsubscribe_sends_again:
  assumes "handle_returned st" and "subscriptionId st \<noteq> JUndefined"
    and "subscriptionSocket st = Some socket" and "readyState st socket = OPEN"
  shows "sent (run [Unsubscribe, Unsubscribe] st)
    = sent st @ [(socket, \<lparr>body_method = ''eth_unsubscribe'', body_params = JArr [subscriptionId st]\<rparr>),
                 (socket, \<lparr>body_method = ''eth_unsubscribe'', body_params = JArr [subscriptionId st]\<rparr>)]"
proof -
  let ?st1 = "unsubscribe st"
  have one: "?st1 = st\<lparr>active := False,
      registered := registered st \<and> \<not> unsubscribeSocket st,
      sent := sent st @ [(socket, \<lparr>body_method = ''eth_unsubscribe'',
                                     body_params = JArr [subscriptionId st]\<rparr>)],
      cleanups := cleanups st @ [OnTeardownResponse]\<rparr>"
    using assms(2-4) by (rule unsubscribe_sends)
  have h1: "handle_returned ?st1"
    using assms(1) unfolding one by (simp add: handle_returned_def)
  have f: "subscriptionId ?st1 = subscriptionId st" "subscriptionSocket ?st1 = Some socket"
    "readyState ?st1 socket = OPEN"
    "sent ?st1 = sent st @ [(socket, \<lparr>body_method = ''eth_unsubscribe'',
                                       body_params = JArr [subscriptionId st]\<rparr>)]"
    using assms(2-4) unfolding one by simp_all
  have two: "unsubscribe ?st1 = ?st1\<lparr>active := False,
      registered := registered ?st1 \<and> \<not> unsubscribeSocket ?st1,
      sent := sent ?st1 @ [(socket, \<lparr>body_method = ''eth_unsubscribe'',
                                     body_params = JArr [subscriptionId ?st1]\<rparr>)],
      cleanups := cleanups ?st1 @ [OnTeardownResponse]\<rparr>"
    using assms(2) f(1-3) by (intro unsubscribe_sends) simp_all
  have "sent (unsubscribe ?st1) = sent ?st1 @ [(socket, \<lparr>body_method = ''eth_unsubscribe'',
                                     body_params = JArr [subscriptionId ?st1]\<rparr>)]"
    by (subst two) simp
  then show ?thesis
    using assms(1) h1 f by simp
qed

text \<open>
  Claim C1, as the code has it. \<^verbatim>\<open>cleanup\<close> keeps no record of a teardown it has sent,
  so what bounds the number of \<^verbatim>\<open>eth_unsubscribe\<close> messages is the number of times
  \<^verbatim>\<open>cleanup\<close> can be invoked: over any sequence of events, the teardown messages sent
  are at most the \<^verbatim>\<open>unsubscribe()\<close> calls plus the open-call acknowledgements that
  arrive after an \<^verbatim>\<open>unsubscribe()\<close> call. A second \<^verbatim>\<open>unsubscribe()\<close> leaves the
  closure's variables as the first one left them; the two states differ at most in the
  messages sent and the promises returned. And they do differ: when the identifier is set
  and the bound socket is OPEN, two \<^verbatim>\<open>unsubscribe()\<close> calls in a row send the
  \<^verbatim>\<open>eth_unsubscribe\<close> message for that identifier twice.
\<close>

theorem teardowns_bounded_by_cleanup_invocations:
  "length (teardowns (run evs st))
     \<le> length (teardowns st) + cleanup_invocations (\<not> active st) evs
   \<and> (unsubscribe (unsubscribe st))\<lparr>sent := ms, cleanups := ps\<rparr>
       = (unsubscribe st)\<lparr>sent := ms, cleanups := ps\<rparr>
   \<and> (handle_returned st \<and> subscriptionId st \<noteq> JUndefined
        \<and> subscriptionSocket st = Some socket \<and> readyState st socket = OPEN \<longrightarrow>
      sent (run [Unsubscribe, Unsubscribe] st)
        = sent st @ [(socket, \<lparr>body_method = ''eth_unsubscribe'',
                                 body_params = JArr [subscriptionId st]\<rparr>),
                     (socket, \<lparr>body_method = ''eth_unsubscribe'',
                                 body_params = JArr [subscriptionId st]\<rparr>)])"
  using teardowns_run [of evs st] unsubscribe_twice [where st = st and ms = ms and ps = ps]
    second_unsubscribe_sends_again [of st socket]
  by blast

text \<open>
  With one \<^verbatim>\<open>unsubscribe()\<close> call and no acknowledgement after it the bound is one
  teardown message; with two calls in the Open state the teardown goes out twice.
\<close>

theorem teardowns_bounded_by_cleanup_invocations_witness:
  "length (teardowns (run [SocketCreated 1, Frame 1 (ack 1 ''0xabc''), Unsubscribe]
      (subscribe newHeads True always_open))) \<le> 1
   \<and> sent (run [SocketCreated 1, Frame 1 (ack 1 ''0xabc''), Unsubscribe, Unsubscribe]
      (subscribe newHeads True always_open))
     = [(1, \<lparr>body_method = ''eth_subscribe'', body_params = newHeads\<rparr>),
        (1, \<lparr>body_method = ''eth_unsubscribe'', body_params = JArr [JStr ''0xabc'']\<rparr>),
        (1, \<lparr>body_method = ''eth_unsubscribe'', body_params = JArr [JStr ''0xabc'']\<rparr>)]"
proof -
  let ?st = "run [SocketCreated 1, Frame 1 (ack 1 ''0xabc'')] (subscribe newHeads True always_open)"
  have h: "handle_returned ?st \<and> subscriptionId ?st \<noteq> JUndefined
        \<and> subscriptionSocket ?st = Some 1 \<and> readyState ?st 1 = OPEN"
    by (simp add: model_defs)
  have a: "length (teardowns (run [SocketCreated 1, Frame 1 (ack 1 ''0xabc''), Unsubscribe]
      (subscribe newHeads True always_open))) \<le> 1"
    using teardowns_bounded_by_cleanup_invocations
      [where evs = "[SocketCreated 1, Frame 1 (ack 1 ''0xabc''), Unsubscribe]"
         and st = "subscribe newHeads True always_open" and ms = "[]" and ps = "[]"
         and socket = 1]
    by (simp add: model_defs)
  have b: "sent (run [Unsubscribe, Unsubscribe] ?st)
        = sent ?st @ [(1, \<lparr>body_method = ''eth_unsubscribe'',
                                 body_params = JArr [subscriptionId ?st]\<rparr>),
                     (1, \<lparr>body_method = ''eth_unsubscribe'',
                                 body_params = JArr [subscriptionId ?st]\<rparr>)]"
    using h teardowns_bounded_by_cleanup_invocations
      [where evs = "[]" and st = ?st and ms = "[]" and ps = "[]" and socket = 1]
    by blast
  show ?thesis
    using a b by (simp add: model_defs)
qed

text \<open>
  Claim C1 as stated fails: in the Open state with an open socket, calling
  \<^verbatim>\<open>unsubscribe()\<close> twice sends two \<^verbatim>\<open>eth_unsubscribe\<close> messages.
\<close>

theorem unsubscribe_twice_sends_two_teardowns:
  "\<not> length (teardowns (run [SocketCreated 1, Frame 1 (ack 1 ''0xabc''), Unsubscribe, Unsubscribe]
        (subscribe newHeads True always_open))) \<le> 1"
  by (simp add: model_defs)

section \<open>Requests\<close>

text \<open>
  Claim C7. When the socket is obtained and the dispatcher yields a response,
  \<^verbatim>\<open>request(method, params)\<close> returns the response's \<^verbatim>\<open>result\<close> if the response has no
  \<^verbatim>\<open>error\<close> field, and throws an RpcRequestError holding the request body, the endpoint
  URL and the server's error payload if \<^verbatim>\<open>error\<close> is a JSON object.
\<close>

theorem request_result_or_RpcRequestError:
  assumes "getSocket url' = Inr socket"
    and "webSocketAsync socket \<lparr>body_method = m, body_params = ps\<rparr> timeout = Inr resp"
  shows "(response_error resp = JUndefined \<longrightarrow>
            request getSocket webSocketAsync url' timeout m ps = Inr (response_result resp))
       \<and> (\<forall>fs. response_error resp = JObj fs \<longrightarrow>
            request getSocket webSocketAsync url' timeout m ps
              = Inl (RpcRequestError \<lparr>body_method = m, body_params = ps\<rparr> url' (JObj fs)))"
  using assms by (simp add: request_def)

theorem request_result_or_RpcRequestError_witness:
  "request (\<lambda>u. Inr 0) (\<lambda>s b t. Inr (ack 1 ''0x10''))
      ''ws://node'' 10000 ''eth_blockNumber'' (JArr []) = Inr (JStr ''0x10'')
   \<and> request (\<lambda>u. Inr 0) (\<lambda>s b t. Inr (failure 1 ''reverted''))
      ''ws://node'' 10000 ''eth_call'' (JArr [])
     = Inl (RpcRequestError \<lparr>body_method = ''eth_call'', body_params = JArr []\<rparr> ''ws://node''
             (JObj [(''code'', JNum (-32000)), (''message'', JStr ''reverted'')]))"
proof -
  have s: "(\<lambda>u::string. Inr 0 :: thrown + socket) ''ws://node'' = Inr 0"
    by simp
  have ok: "(\<lambda>(s::socket) (b::body) (t::nat). Inr (ack 1 ''0x10'') :: thrown + rpc_response) 0
      \<lparr>body_method = ''eth_blockNumber'', body_params = JArr []\<rparr> 10000 = Inr (ack 1 ''0x10'')"
    by simp
  have bad: "(\<lambda>(s::socket) (b::body) (t::nat). Inr (failure 1 ''reverted'') :: thrown + rpc_response) 0
      \<lparr>body_method = ''eth_call'', body_params = JArr []\<rparr> 10000 = Inr (failure 1 ''reverted'')"
    by simp
  show ?thesis
    using request_result_or_RpcRequestError [OF s ok] request_result_or_RpcRequestError [OF s bad]
    by (simp add: ack_def failure_def)
qed

section \<open>The close handler\<close>

text \<open>
  Claim C9. When the close handler of a socket runs while the closure is bound to another
  socket (or to none), nothing changes: the bound socket and the subscription identifier
  stay as they are. Only the close of the socket that is currently bound clears both.
\<close>

theorem stale_close_leaves_record_unchanged:
  "(subscriptionSocket st \<noteq> Some socket \<longrightarrow> step (SocketClosed socket) st = st)
   \<and> (subscriptionSocket st = Some socket \<and> socket \<in> set (opened st) \<longrightarrow>
        subscriptionSocket (step (SocketClosed socket) st) = None
      \<and> subscriptionId (step (SocketClosed socket) st) = JUndefined)"
  by (simp add: onSocketClosed_def)

text \<open>
  After a reconnection from socket 1 to socket 2, the late close of socket 1 changes
  nothing, and the close of socket 2 clears the binding and the identifier.
\<close>

theorem stale_close_leaves_record_unchanged_witness:
  "step (SocketClosed 1)
     (run [SocketCreated 1, Frame 1 (ack 1 ''0xabc''), SocketCreated 2, Frame 2 (ack 1 ''0xdef'')]
        (subscribe newHeads True always_open))
   = run [SocketCreated 1, Frame 1 (ack 1 ''0xabc''), SocketCreated 2, Frame 2 (ack 1 ''0xdef'')]
        (subscribe newHeads True always_open)
   \<and> subscriptionSocket (step (SocketClosed 2)
     (run [SocketCreated 1, Frame 1 (ack 1 ''0xabc''), SocketCreated 2, Frame 2 (ack 1 ''0xdef'')]
        (subscribe newHeads True always_open))) = None
   \<and> subscriptionId (step (SocketClosed 2)
     (run [SocketCreated 1, Frame 1 (ack 1 ''0xabc''), SocketCreated 2, Frame 2 (ack 1 ''0xdef'')]
        (subscribe newHeads True always_open))) = JUndefined"
  using stale_close_leaves_record_unchanged [of
      "run [SocketCreated 1, Frame 1 (ack 1 ''0xabc''), SocketCreated 2, Frame 2 (ack 1 ''0xdef'')]
        (subscribe newHeads True always_open)" 1]
    stale_close_leaves_record_unchanged [of
      "run [SocketCreated 1, Frame 1 (ack 1 ''0xabc''), SocketCreated 2, Frame 2 (ack 1 ''0xdef'')]
        (subscribe newHeads True always_open)" 2]
  by (simp add: model_defs)

section \<open>The \<^verbatim>\<open>readyState\<close> guard of \<^verbatim>\<open>cleanup\<close>\<close>

lemma sent_step:
  "sent (step e st) = sent st
   \<or> (\<exists>socket b. sent (step e st) = sent st @ [(socket, b)] \<and> readyState st socket = OPEN)"
proof (cases e)
  case (Frame socket r)
  show ?thesis
  proof (cases "socket \<in> set (opened st) \<and> is_ack r \<and> \<not> active st \<and> handle_returned st")
    case True
    let ?st2 = "(resolve r st)\<lparr>subscriptionId := response_result r\<rparr>"
    have s2: "sent ?st2 = sent st" "active ?st2 = active st" "readyState ?st2 = readyState st"
      by (simp_all add: resolve_def split: promise.splits)
    show ?thesis
      using True s2 Frame
      by (cases ?st2 rule: cleanup_cases)
         (simp_all add: onResponse_def is_ack_def track_def Let_def)
  next
    case False
    then show ?thesis
      using Frame
      by (auto simp add: onResponse_def is_ack_def call_onError_def call_onData_def
        reject_def resolve_def Let_def split: promise.splits)
  qed
next
  case Unsubscribe
  then show ?thesis
    by (cases "st\<lparr>active := False\<rparr>" rule: cleanup_cases)
       (simp_all add: unsubscribe_def track_def)
qed (simp_all add: onSocketCreated_def onSocketClosed_def rpc_webSocket_def
       call_onError_def reject_def Let_def split: promise.splits)

lemma cleanup_char:
  "cleanup st =
     (if subscriptionId st \<noteq> JUndefined
         \<and> (case subscriptionSocket st of None \<Rightarrow> False | Some s \<Rightarrow> readyState st s = OPEN)
      then (OnTeardownResponse,
            st\<lparr>registered := registered st \<and> \<not> unsubscribeSocket st,
               sent := sent st @ [(the (subscriptionSocket st),
                  \<lparr>body_method = ''eth_unsubscribe'', body_params = JArr [subscriptionId st]\<rparr>)]\<rparr>)
      else (NoResolver, st\<lparr>registered := registered st \<and> \<not> unsubscribeSocket st\<rparr>))"
  by (cases st rule: cleanup_cases) (auto split: option.splits)

lemma no_new_Threw:
  "Threw x \<in> set (cleanups (step e st)) \<Longrightarrow> Threw x \<in> set (cleanups st)"
proof (cases e)
  case (Frame socket r)
  assume t: "Threw x \<in> set (cleanups (step e st))"
  let ?st2 = "(resolve r st)\<lparr>subscriptionId := response_result r\<rparr>"
  have s2: "cleanups ?st2 = cleanups st"
    by (simp_all add: resolve_def split: promise.splits)
  show ?thesis
    using s2 Frame t
    by (cases ?st2 rule: cleanup_cases)
       (auto simp add: onResponse_def track_def Let_def call_onError_def call_onData_def
         reject_def split: promise.splits if_splits)
next
  case Unsubscribe
  assume t: "Threw x \<in> set (cleanups (step e st))"
  then show ?thesis
    using Unsubscribe
    by (cases "st\<lparr>active := False\<rparr>" rule: cleanup_cases)
       (auto simp add: unsubscribe_def track_def split: if_splits)
next
  case (TeardownResponse k r)
  assume t: "Threw x \<in> set (cleanups (step e st))"
  then show ?thesis
    using TeardownResponse set_update_subset_insert [of "cleanups st" k "Done r"]
    by (auto split: if_splits)
qed (auto simp add: onSocketCreated_def onSocketClosed_def rpc_webSocket_def
       call_onError_def reject_def Let_def split: promise.splits if_splits)

text \<open>
  Claim C8, as the code has it. \<^verbatim>\<open>cleanup\<close> sends the \<^verbatim>\<open>eth_unsubscribe\<close> message
  exactly when an identifier is set and the bound socket's \<^verbatim>\<open>readyState\<close> is OPEN.
  Otherwise it returns before \<^verbatim>\<open>rpc.webSocket\<close> is called: nothing is sent, the promise
  is left without resolver, and \<open>active\<close>, the bound socket and the identifier stay as
  they were (only the registry listener is unregistered, when that callback exists); the
  record is not discarded. Whatever the event, a teardown message it adds goes to a socket
  whose \<^verbatim>\<open>readyState\<close> is OPEN at that moment, and no event makes a promise of
  \<^verbatim>\<open>cleanup\<close> fail with the error of a send on a socket that is not open.
\<close>

theorem teardown_only_on_open_socket:
  "cleanup st =
     (if subscriptionId st \<noteq> JUndefined
         \<and> (case subscriptionSocket st of None \<Rightarrow> False | Some s \<Rightarrow> readyState st s = OPEN)
      then (OnTeardownResponse,
            st\<lparr>registered := registered st \<and> \<not> unsubscribeSocket st,
               sent := sent st @ [(the (subscriptionSocket st),
                  \<lparr>body_method = ''eth_unsubscribe'', body_params = JArr [subscriptionId st]\<rparr>)]\<rparr>)
      else (NoResolver, st\<lparr>registered := registered st \<and> \<not> unsubscribeSocket st\<rparr>))
   \<and> (teardowns (step e st) = teardowns st
      \<or> (\<exists>socket b. teardowns (step e st) = teardowns st @ [(socket, b)]
            \<and> readyState st socket = OPEN))
   \<and> (Threw err \<notin> set (cleanups st) \<longrightarrow> Threw err \<notin> set (cleanups (step e st)))"
proof (intro conjI impI)
  show "cleanup st =
     (if subscriptionId st \<noteq> JUndefined
         \<and> (case subscriptionSocket st of None \<Rightarrow> False | Some s \<Rightarrow> readyState st s = OPEN)
      then (OnTeardownResponse,
            st\<lparr>registered := registered st \<and> \<not> unsubscribeSocket st,
               sent := sent st @ [(the (subscriptionSocket st),
                  \<lparr>body_method = ''eth_unsubscribe'', body_params = JArr [subscriptionId st]\<rparr>)]\<rparr>)
      else (NoResolver, st\<lparr>registered := registered st \<and> \<not> unsubscribeSocket st\<rparr>))"
    by (rule cleanup_char)
next
  show "teardowns (step e st) = teardowns st
      \<or> (\<exists>socket b. teardowns (step e st) = teardowns st @ [(socket, b)]
            \<and> readyState st socket = OPEN)"
    using sent_step [of e st] by (auto simp add: teardowns_def)
next
  assume "Threw err \<notin> set (cleanups st)"
  then show "Threw err \<notin> set (cleanups (step e st))"
    using no_new_Threw [of err e st] by blast
qed

text \<open>
  After socket 1 has started closing, \<^verbatim>\<open>unsubscribe()\<close> sends no teardown message and
  its promise has no resolver; the identifier and the binding are still there.
\<close>

theorem teardown_only_on_open_socket_witness:
  "cleanup (run [SocketCreated 1, Frame 1 (ack 1 ''0xabc''), ReadyStateChange 1 CLOSING]
        (subscribe newHeads True always_open))
     = (NoResolver, run [SocketCreated 1, Frame 1 (ack 1 ''0xabc''), ReadyStateChange 1 CLOSING]
        (subscribe newHeads True always_open))
   \<and> teardowns (step Unsubscribe
      (run [SocketCreated 1, Frame 1 (ack 1 ''0xabc''), ReadyStateChange 1 CLOSING]
        (subscribe newHeads True always_open))) = []
   \<and> Threw ConnectionClosed \<notin> set (cleanups (step Unsubscribe
      (run [SocketCreated 1, Frame 1 (ack 1 ''0xabc''), ReadyStateChange 1 CLOSING]
        (subscribe newHeads True always_open))))"
proof -
  let ?st = "run [SocketCreated 1, Frame 1 (ack 1 ''0xabc''), ReadyStateChange 1 CLOSING]
        (subscribe newHeads True always_open)"
  have h: "Threw ConnectionClosed \<notin> set (cleanups ?st)"
    by (simp add: model_defs)
  have n: "\<not> (subscriptionId ?st \<noteq> JUndefined
         \<and> (case subscriptionSocket ?st of None \<Rightarrow> False | Some s \<Rightarrow> readyState ?st s = OPEN))"
    by (simp add: model_defs)
  have u: "?st\<lparr>registered := registered ?st \<and> \<not> unsubscribeSocket ?st\<rparr> = ?st"
    by (simp add: model_defs)
  have t: "teardowns ?st = []"
    by (simp add: model_defs)
  have c: "\<not> readyState ?st 1 = OPEN"
    by (simp add: model_defs)
  have s: "subscriptionSocket ?st = Some 1"
    by (simp add: model_defs)
  note w = teardown_only_on_open_socket [of ?st Unsubscribe ConnectionClosed]
  have 1: "cleanup ?st = (NoResolver, ?st)"
    using w n u by simp
  have 3: "Threw ConnectionClosed \<notin> set (cleanups (step Unsubscribe ?st))"
    using w h by blast
  have 2: "teardowns (step Unsubscribe ?st) = []"
    by (simp add: model_defs)
  show ?thesis
    using 1 2 3 by simp
qed

text \<open>
  Claim C8 as stated fails: the record is not discarded when the teardown is skipped.
  After an \<^verbatim>\<open>unsubscribe()\<close> on a closing socket the closure still holds its identifier
  and its socket and still hands a push frame to \<^verbatim>\<open>onData\<close>; and when the listener was
  not unregistered, the next socket is subscribed again and the teardown is sent on it
  once its acknowledgement arrives.
\<close>

theorem record_survives_skipped_teardown:
  "teardowns (run [SocketCreated 1, Frame 1 (ack 1 ''0xabc''), ReadyStateChange 1 CLOSING,
                   Unsubscribe, Frame 1 (push ''0xabc'' (JStr ''head''))]
        (subscribe newHeads True always_open)) = []
   \<and> subscriptionId (run [SocketCreated 1, Frame 1 (ack 1 ''0xabc''), ReadyStateChange 1 CLOSING,
                   Unsubscribe, Frame 1 (push ''0xabc'' (JStr ''head''))]
        (subscribe newHeads True always_open)) = JStr ''0xabc''
   \<and> subscriptionSocket (run [SocketCreated 1, Frame 1 (ack 1 ''0xabc''), ReadyStateChange 1 CLOSING,
                   Unsubscribe, Frame 1 (push ''0xabc'' (JStr ''head''))]
        (subscribe newHeads True always_open)) = Some 1
   \<and> onData_calls (run [SocketCreated 1, Frame 1 (ack 1 ''0xabc''), ReadyStateChange 1 CLOSING,
                   Unsubscribe, Frame 1 (push ''0xabc'' (JStr ''head''))]
        (subscribe newHeads True always_open))
      = [JObj [(''subscription'', JStr ''0xabc''), (''result'', JStr ''head'')]]
   \<and> sent (run [SocketCreated 1, Frame 1 (ack 1 ''0xabc''), ReadyStateChange 1 CLOSING,
                 Unsubscribe, SocketClosed 1, SocketCreated 2, Frame 2 (ack 2 ''0xdef'')]
        (subscribe newHeads True always_open))
      = [(1, \<lparr>body_method = ''eth_subscribe'', body_params = newHeads\<rparr>),
         (2, \<lparr>body_method = ''eth_subscribe'', body_params = newHeads\<rparr>),
         (2, \<lparr>body_method = ''eth_unsubscribe'', body_params = JArr [JStr ''0xdef'']\<rparr>)]"
  by (simp add: model_defs)

section \<open>The promise returned by \<^verbatim>\<open>unsubscribe\<close>\<close>

lemma cleanups_step:
  "\<forall>r. e \<noteq> TeardownResponse k r \<Longrightarrow> k < length (cleanups st) \<Longrightarrow>
   k < length (cleanups (step e st)) \<and> cleanups (step e st) ! k = cleanups st ! k"
proof (cases e)
  case (Frame socket r)
  assume k: "k < length (cleanups st)"
  let ?st2 = "(resolve r st)\<lparr>subscriptionId := response_result r\<rparr>"
  have s2: "cleanups ?st2 = cleanups st"
    by (simp_all add: resolve_def split: promise.splits)
  show ?thesis
    using s2 Frame k
    by (cases ?st2 rule: cleanup_cases)
       (auto simp add: onResponse_def track_def Let_def call_onError_def call_onData_def
         reject_def nth_append split: promise.splits)
next
  case Unsubscribe
  assume k: "k < length (cleanups st)"
  then show ?thesis
    using Unsubscribe
    by (cases "st\<lparr>active := False\<rparr>" rule: cleanup_cases)
       (simp_all add: unsubscribe_def track_def nth_append)
next
  case (TeardownResponse k' r)
  assume "\<forall>r. e \<noteq> TeardownResponse k r" "k < length (cleanups st)"
  then show ?thesis using TeardownResponse by auto
qed (simp_all add: onSocketCreated_def onSocketClosed_def rpc_webSocket_def
       call_onError_def reject_def Let_def split: promise.splits)

lemma cleanups_run:
  "\<forall>r. TeardownResponse k r \<notin> set evs \<Longrightarrow> k < length (cleanups st) \<Longrightarrow>
   k < length (cleanups (run evs st)) \<and> cleanups (run evs st) ! k = cleanups st ! k"
proof (induction evs arbitrary: st)
  case Nil
  then show ?case by simp
next
  case (Cons e evs)
  have e: "\<forall>r. e \<noteq> TeardownResponse k r" using Cons.prems(1) by auto
  have "k < length (cleanups (step e st)) \<and> cleanups (step e st) ! k = cleanups st ! k"
    using cleanups_step [OF e Cons.prems(2)] .
  moreover have "\<forall>r. TeardownResponse k r \<notin> set evs" using Cons.prems(1) by auto
  ultimately show ?case using Cons.IH [of "step e st"] by simp
qed

text \<open>
  Claim C4, as the code has it. An \<^verbatim>\<open>unsubscribe()\<close> call that sends the teardown
  message (identifier set, socket bound and OPEN) returns a promise whose \<^verbatim>\<open>resolve\<close> is
  the \<^verbatim>\<open>onResponse\<close> of the \<^verbatim>\<open>eth_unsubscribe\<close> call: the promise is pending after the
  message has been sent, stays pending whatever else happens, and is resolved with the
  response when the response to the teardown message arrives.
\<close>

theorem unsubscribe_promise_resolves_on_teardown_response:
  assumes "handle_returned st" and "subscriptionId st \<noteq> JUndefined"
    and "subscriptionSocket st = Some socket" and "readyState st socket = OPEN"
    and "\<forall>r. TeardownResponse (length (cleanups st)) r \<notin> set evs"
  shows "sent (step Unsubscribe st)
           = sent st @ [(socket, \<lparr>body_method = ''eth_unsubscribe'', body_params = JArr [subscriptionId st]\<rparr>)]
       \<and> cleanups (step Unsubscribe st) = cleanups st @ [OnTeardownResponse]
       \<and> cleanups (run evs (step Unsubscribe st)) ! length (cleanups st) = OnTeardownResponse
       \<and> cleanups (step (TeardownResponse (length (cleanups st)) response)
                     (run evs (step Unsubscribe st))) ! length (cleanups st) = Done response"
proof -
  let ?k = "length (cleanups st)"
  have u: "step Unsubscribe st = st\<lparr>active := False,
      registered := registered st \<and> \<not> unsubscribeSocket st,
      sent := sent st @ [(socket, \<lparr>body_method = ''eth_unsubscribe'', body_params = JArr [subscriptionId st]\<rparr>)],
      cleanups := cleanups st @ [OnTeardownResponse]\<rparr>"
    using assms(1-4) cleanup_sends [of "st\<lparr>active := False\<rparr>" socket]
    by (simp add: unsubscribe_def track_def)
  have k: "?k < length (cleanups (step Unsubscribe st))" unfolding u by simp
  have later: "?k < length (cleanups (run evs (step Unsubscribe st)))
      \<and> cleanups (run evs (step Unsubscribe st)) ! ?k = cleanups (step Unsubscribe st) ! ?k"
    using cleanups_run [OF assms(5) k] .
  moreover have "cleanups (step Unsubscribe st) ! ?k = OnTeardownResponse"
    unfolding u by simp
  ultimately have pend: "cleanups (run evs (step Unsubscribe st)) ! ?k = OnTeardownResponse"
    by simp
  have "sent (step Unsubscribe st)
           = sent st @ [(socket, \<lparr>body_method = ''eth_unsubscribe'', body_params = JArr [subscriptionId st]\<rparr>)]"
    "cleanups (step Unsubscribe st) = cleanups st @ [OnTeardownResponse]"
    unfolding u by simp_all
  then show ?thesis using later pend by simp
qed

text \<open>
  One \<^verbatim>\<open>unsubscribe()\<close> in the Open state: the promise is pending while a push frame
  arrives, and it is resolved by the response to the teardown message.
\<close>

theorem unsubscribe_promise_resolves_on_teardown_response_witness:
  "cleanups (run [SocketCreated 1, Frame 1 (ack 1 ''0xabc''), Unsubscribe,
                  Frame 1 (push ''0xabc'' JNull)]
       (subscribe newHeads True always_open)) ! 0 = OnTeardownResponse
   \<and> cleanups (run [SocketCreated 1, Frame 1 (ack 1 ''0xabc''), Unsubscribe,
                  Frame 1 (push ''0xabc'' JNull), TeardownResponse 0 (ack 2 ''true'')]
       (subscribe newHeads True always_open)) ! 0 = Done (ack 2 ''true'')"
proof -
  let ?st = "run [SocketCreated 1, Frame 1 (ack 1 ''0xabc'')] (subscribe newHeads True always_open)"
  have h1: "handle_returned ?st" by (simp add: model_defs)
  have h2: "subscriptionId ?st \<noteq> JUndefined" by (simp add: model_defs)
  have h3: "subscriptionSocket ?st = Some 1" by (simp add: model_defs)
  have h4: "readyState ?st 1 = OPEN" by (simp add: model_defs)
  have h5: "\<forall>r. TeardownResponse (length (cleanups ?st)) r \<notin> set [Frame 1 (push ''0xabc'' JNull)]"
    by simp
  show ?thesis
    using unsubscribe_promise_resolves_on_teardown_response [OF h1 h2 h3 h4 h5, of "ack 2 ''true''"]
    by (simp add: model_defs)
qed

text \<open>
  Claim C4 as stated fails. After the teardown message has been sent the promise is still
  pending; and when no teardown message is needed (here: the identifier was reset by a
  reconnection) the executor returns before \<^verbatim>\<open>resolve\<close> is passed to anyone.
\<close>

theorem unsubscribe_promise_pending_after_send:
  "teardowns (run [SocketCreated 1, Frame 1 (ack 1 ''0xabc''), Unsubscribe]
       (subscribe newHeads True always_open))
     = [(1, \<lparr>body_method = ''eth_unsubscribe'', body_params = JArr [JStr ''0xabc'']\<rparr>)]
   \<and> cleanups (run [SocketCreated 1, Frame 1 (ack 1 ''0xabc''), Unsubscribe]
       (subscribe newHeads True always_open)) = [OnTeardownResponse]
   \<and> teardowns (run [SocketCreated 1, Frame 1 (ack 1 ''0xabc''), SocketClosed 1, SocketCreated 2,
                     Unsubscribe]
       (subscribe newHeads True always_open)) = []
   \<and> cleanups (run [SocketCreated 1, Frame 1 (ack 1 ''0xabc''), SocketClosed 1, SocketCreated 2,
                    Unsubscribe]
       (subscribe newHeads True always_open)) = [NoResolver]"
  by (simp add: model_defs)

section \<open>Delivery to \<^verbatim>\<open>onData\<close>\<close>

lemma onData_calls_onResponse:
  "onData_calls (onResponse r st)
     = (if is_push r then onData_calls st @ [response_params r] else onData_calls st)"
proof (cases "is_ack r \<and> \<not> active st \<and> handle_returned st")
  case True
  let ?st2 = "(resolve r st)\<lparr>subscriptionId := response_result r\<rparr>"
  have s2: "onData_calls ?st2 = onData_calls st" "active ?st2 = active st"
    by (simp_all add: resolve_def split: promise.splits)
  show ?thesis
    using True s2
    by (cases ?st2 rule: cleanup_cases)
       (simp_all add: onResponse_def is_ack_def is_push_def track_def Let_def)
next
  case False
  then show ?thesis
    by (auto simp add: onResponse_def is_ack_def is_push_def call_onError_def call_onData_def
        reject_def resolve_def Let_def split: promise.splits)
qed

lemma onData_calls_unsubscribe: "onData_calls (unsubscribe st) = onData_calls st"
  by (cases "st\<lparr>active := False\<rparr>" rule: cleanup_cases)
     (simp_all add: unsubscribe_def track_def)

text \<open>
  Claim C5, as the code has it. \<^verbatim>\<open>onResponse\<close> does not test \<open>active\<close> before it calls
  \<^verbatim>\<open>onData\<close>. The response to the open call itself (a frame with an error or a numeric
  id) never reaches \<^verbatim>\<open>onData\<close>, and no event other than a frame does; but every frame
  without error and without numeric id whose method is \<^verbatim>\<open>eth_subscription\<close> is handed
  to \<^verbatim>\<open>onData\<close>, whether or not \<^verbatim>\<open>unsubscribe()\<close> has been called.
\<close>

theorem onData_receives_exactly_the_push_frames:
  "(socket \<in> set (opened st) \<and> is_push r \<longrightarrow>
      onData_calls (step (Frame socket r) st) = onData_calls st @ [response_params r])
   \<and> (\<not> is_push r \<longrightarrow> onData_calls (step (Frame socket r) st) = onData_calls st)
   \<and> ((\<forall>s' r'. e \<noteq> Frame s' r') \<longrightarrow> onData_calls (step e st) = onData_calls st)"
proof (intro conjI impI)
  assume "socket \<in> set (opened st) \<and> is_push r"
  then show "onData_calls (step (Frame socket r) st) = onData_calls st @ [response_params r]"
    by (simp add: onData_calls_onResponse)
next
  assume "\<not> is_push r"
  then show "onData_calls (step (Frame socket r) st) = onData_calls st"
    by (simp add: onData_calls_onResponse)
next
  assume "\<forall>s' r'. e \<noteq> Frame s' r'"
  then show "onData_calls (step e st) = onData_calls st"
    by (cases e)
       (simp_all add: onData_calls_unsubscribe onSocketCreated_def onSocketClosed_def
          rpc_webSocket_def call_onError_def reject_def Let_def split: promise.splits)
qed

text \<open>
  The acknowledgement that arrives after an early \<^verbatim>\<open>unsubscribe()\<close> is not delivered; a
  push frame is.
\<close>

theorem onData_receives_exactly_the_push_frames_witness:
  "onData_calls (run [SocketCreated 1, Frame 1 (ack 1 ''0xabc''), SocketCreated 2, Unsubscribe,
                      Frame 2 (ack 1 ''0xdef'')]
       (subscribe newHeads True always_open)) = []
   \<and> onData_calls (run [SocketCreated 1, Frame 1 (ack 1 ''0xabc''), Frame 1 (push ''0xabc'' (JStr ''head''))]
       (subscribe newHeads True always_open))
      = [JObj [(''subscription'', JStr ''0xabc''), (''result'', JStr ''head'')]]"
  using onData_receives_exactly_the_push_frames
    [of 2 "run [SocketCreated 1, Frame 1 (ack 1 ''0xabc''), SocketCreated 2, Unsubscribe]
       (subscribe newHeads True always_open)" "ack 1 ''0xdef''" Unsubscribe]
   onData_receives_exactly_the_push_frames
    [of 1 "run [SocketCreated 1, Frame 1 (ack 1 ''0xabc'')]
       (subscribe newHeads True always_open)" "push ''0xabc'' (JStr ''head'')" Unsubscribe]
  by (simp add: model_defs)

text \<open>
  Claim C5 as stated fails. The subscription is open, the socket is recreated, the
  consumer unsubscribes before the new open call is acknowledged; the acknowledgement
  arrives and the teardown message is sent; a notification that the server emitted
  before it processed the teardown then arrives and is delivered to \<^verbatim>\<open>onData\<close>.
\<close>

theorem push_after_early_unsubscribe_reaches_onData:
  "onData_calls (run [SocketCreated 1, SubscribeSocketResolved, Frame 1 (ack 1 ''0xabc''),
                      ReadyStateChange 1 CLOSED, SocketClosed 1, SocketCreated 2, Unsubscribe,
                      Frame 2 (ack 1 ''0xdef''), Frame 2 (push ''0xdef'' (JStr ''head''))]
       (subscribe newHeads True always_open))
   = [JObj [(''subscription'', JStr ''0xdef''), (''result'', JStr ''head'')]]"
  by (simp add: model_defs)

section \<open>A failed open call\<close>

lemma first_response_step_settled:
  "first_response st \<noteq> Pending \<Longrightarrow> first_response (step e st) = first_response st"
proof (cases e)
  case (Frame socket r)
  assume p: "first_response st \<noteq> Pending"
  let ?st2 = "(resolve r st)\<lparr>subscriptionId := response_result r\<rparr>"
  have s2: "first_response ?st2 = first_response st"
    using p by (simp_all add: resolve_def split: promise.splits)
  show ?thesis
    using s2 Frame p
    by (cases ?st2 rule: cleanup_cases)
       (auto simp add: onResponse_def track_def Let_def call_onError_def call_onData_def
         reject_def split: promise.splits)
next
  case Unsubscribe
  then show ?thesis
    by (cases "st\<lparr>active := False\<rparr>" rule: cleanup_cases)
       (simp_all add: unsubscribe_def track_def)
qed (auto simp add: onSocketCreated_def onSocketClosed_def rpc_webSocket_def
       call_onError_def reject_def Let_def split: promise.splits)

lemma first_response_run_settled:
  "first_response st \<noteq> Pending \<Longrightarrow> first_response (run evs st) = first_response st"
  by (induction evs arbitrary: st) (simp_all add: first_response_step_settled)

text \<open>
  Claim C3, as the code has it. While \<^verbatim>\<open>subscribe\<close> is still awaiting the first response,
  an open-call response that carries an error, or a rejection of \<^verbatim>\<open>subscribeSocket\<close>,
  rejects the awaited promise with that error: \<^verbatim>\<open>subscribe()\<close> rejects, whatever happens
  afterwards no handle is returned (so there is no \<^verbatim>\<open>unsubscribe\<close> to call), and the
  error is passed to \<^verbatim>\<open>onError\<close> when the consumer supplied one.
\<close>

theorem failed_open_call_rejects_subscribe:
  assumes "first_response st = Pending"
  shows "(socket \<in> set (opened st) \<and> truthy (response_error r) \<longrightarrow>
            first_response (run evs (step (Frame socket r) st)) = Rejected (Payload (response_error r))
          \<and> \<not> handle_returned (run evs (step (Frame socket r) st))
          \<and> onError_calls (step (Frame socket r) st)
              = (if has_onError st then onError_calls st @ [Payload (response_error r)]
                 else onError_calls st))
       \<and> (\<not> subscribeSocket_settled st \<longrightarrow>
            first_response (run evs (step (SubscribeSocketRejected e) st)) = Rejected e
          \<and> \<not> handle_returned (run evs (step (SubscribeSocketRejected e) st))
          \<and> onError_calls (step (SubscribeSocketRejected e) st)
              = (if has_onError st then onError_calls st @ [e] else onError_calls st))"
proof (intro conjI impI)
  assume a: "socket \<in> set (opened st) \<and> truthy (response_error r)"
  have f: "step (Frame socket r) st
      = call_onError (Payload (response_error r)) (st\<lparr>first_response := Rejected (Payload (response_error r))\<rparr>)"
    using a assms by (simp add: onResponse_def reject_def)
  have "first_response (step (Frame socket r) st) = Rejected (Payload (response_error r))"
    unfolding f by (simp add: call_onError_def)
  then show 1: "first_response (run evs (step (Frame socket r) st)) = Rejected (Payload (response_error r))"
    using first_response_run_settled [of "step (Frame socket r) st" evs] by simp
  show "\<not> handle_returned (run evs (step (Frame socket r) st))"
    using 1 by (simp add: handle_returned_def)
  show "onError_calls (step (Frame socket r) st)
              = (if has_onError st then onError_calls st @ [Payload (response_error r)]
                 else onError_calls st)"
    unfolding f by (simp add: call_onError_def)
next
  assume a: "\<not> subscribeSocket_settled st"
  have f: "step (SubscribeSocketRejected e) st
      = call_onError e (st\<lparr>subscribeSocket_settled := True, first_response := Rejected e\<rparr>)"
    using a assms by (simp add: reject_def)
  have "first_response (step (SubscribeSocketRejected e) st) = Rejected e"
    unfolding f by (simp add: call_onError_def)
  then show 1: "first_response (run evs (step (SubscribeSocketRejected e) st)) = Rejected e"
    using first_response_run_settled [of "step (SubscribeSocketRejected e) st" evs] by simp
  show "\<not> handle_returned (run evs (step (SubscribeSocketRejected e) st))"
    using 1 by (simp add: handle_returned_def)
  show "onError_calls (step (SubscribeSocketRejected e) st)
              = (if has_onError st then onError_calls st @ [e] else onError_calls st)"
    unfolding f by (simp add: call_onError_def)
qed

text \<open>
  An error response to the first open call, and a rejected socket registration: the
  promise stays rejected when an acknowledgement arrives later.
\<close>

theorem failed_open_call_rejects_subscribe_witness:
  "first_response (run [SocketCreated 1, Frame 1 (failure 1 ''limit''), Frame 1 (ack 2 ''0xabc''),
                        Unsubscribe]
       (subscribe newHeads True always_open))
     = Rejected (Payload (JObj [(''code'', JNum (-32000)), (''message'', JStr ''limit'')]))
   \<and> onError_calls (run [SocketCreated 1, Frame 1 (failure 1 ''limit'')]
       (subscribe newHeads True always_open))
     = [Payload (JObj [(''code'', JNum (-32000)), (''message'', JStr ''limit'')])]
   \<and> first_response (run [SubscribeSocketRejected (SocketError ''refused''), SocketCreated 1]
       (subscribe newHeads True always_open))
     = Rejected (SocketError ''refused'')"
proof -
  have h1: "first_response (run [SocketCreated 1] (subscribe newHeads True always_open)) = Pending"
    by (simp add: model_defs)
  have h2: "first_response (subscribe newHeads True always_open) = Pending"
    by (simp add: model_defs)
  show ?thesis
    using failed_open_call_rejects_subscribe
        [OF h1, of 1 "failure 1 ''limit''" "[Frame 1 (ack 2 ''0xabc''), Unsubscribe]"
           "SocketError ''refused''"]
      failed_open_call_rejects_subscribe
        [OF h2, of 1 "failure 1 ''limit''" "[SocketCreated 1]" "SocketError ''refused''"]
    by (simp add: model_defs)
qed

text \<open>
  Claim C3 as stated fails: after an open-call response with an error, \<^verbatim>\<open>subscribe()\<close>
  has returned no handle.
\<close>

theorem failed_subscribe_returns_no_handle:
  "\<not> handle_returned (run [SocketCreated 1, Frame 1 (failure 1 ''limit'')]
       (subscribe newHeads True always_open))"
  by (simp add: model_defs)

section \<open>Invariants of the event sequence\<close>

lemma active_run: "\<not> active st \<Longrightarrow> \<not> active (run evs st)"
  by (induction evs arbitrary: st) (simp_all add: active_step)

lemma handle_returned_run: "handle_returned st \<Longrightarrow> handle_returned (run evs st)"
  using first_response_run_settled [of st evs]
  by (cases "first_response st") (simp_all add: handle_returned_def)

lemma subscriptionId_ack:
  "socket \<in> set (opened st) \<Longrightarrow> is_ack r \<Longrightarrow>
   subscriptionId (step (Frame socket r) st) = response_result r"
proof -
  assume a: "socket \<in> set (opened st)" "is_ack r"
  let ?st2 = "(resolve r st)\<lparr>subscriptionId := response_result r\<rparr>"
  show ?thesis
    using a
    by (cases ?st2 rule: cleanup_cases)
       (auto simp add: onResponse_def is_ack_def track_def Let_def call_onError_def)
qed

section \<open>Unsubscribing before the identifier is known\<close>

text \<open>
  Claim C2, as the code has it. \<^verbatim>\<open>unsubscribe()\<close> called while the closure has no
  identifier sends nothing. When afterwards, whatever happened in between, an open-call
  response without error and with a numeric id supplies an identifier, the identifier is
  stored, and \<^verbatim>\<open>cleanup\<close> runs in that very callback under its usual guard: if the
  closure is bound to a socket whose \<^verbatim>\<open>readyState\<close> is OPEN, one \<^verbatim>\<open>eth_unsubscribe\<close>
  message whose parameter is exactly the identifier of the response is sent on the bound
  socket; if no socket is bound or the bound socket is not OPEN, nothing is sent.
\<close>

theorem deferred_teardown_on_late_identifier:
  assumes "handle_returned st" and "subscriptionId st = JUndefined"
    and "st' = run evs (step Unsubscribe st)"
    and "socket' \<in> set (opened st')"
    and "is_ack r" and "response_result r \<noteq> JUndefined"
  shows "sent (step Unsubscribe st) = sent st
       \<and> subscriptionId (step (Frame socket' r) st') = response_result r
       \<and> sent (step (Frame socket' r) st')
           = (case subscriptionSocket st' of
                None \<Rightarrow> sent st'
              | Some socket \<Rightarrow>
                  if readyState st' socket = OPEN
                  then sent st' @ [(socket, \<lparr>body_method = ''eth_unsubscribe'',
                                               body_params = JArr [response_result r]\<rparr>)]
                  else sent st')"
proof (intro conjI)
  show "sent (step Unsubscribe st) = sent st"
    using assms(1,2) cleanup_skips [of "st\<lparr>active := False\<rparr>"]
    by (simp add: unsubscribe_def track_def)
next
  show "subscriptionId (step (Frame socket' r) st') = response_result r"
    using assms(4,5) by (rule subscriptionId_ack)
next
  have "\<not> active (step Unsubscribe st)"
    using assms(1) by (simp add: active_unsubscribe)
  then have inactive: "\<not> active st'"
    unfolding assms(3) by (rule active_run)
  have "handle_returned (step Unsubscribe st)"
    using assms(1) first_response_step_settled [of st Unsubscribe]
    by (cases "first_response st") (simp_all add: handle_returned_def)
  then have handle: "handle_returned st'"
    unfolding assms(3) by (rule handle_returned_run)
  let ?st2 = "(resolve r st')\<lparr>subscriptionId := response_result r\<rparr>"
  have s2: "sent ?st2 = sent st'" "active ?st2 = active st'" "readyState ?st2 = readyState st'"
    "subscriptionSocket ?st2 = subscriptionSocket st'" "subscriptionId ?st2 = response_result r"
    by (simp_all add: resolve_def split: promise.splits)
  have f: "step (Frame socket' r) st' = track (fst (cleanup ?st2)) (snd (cleanup ?st2))"
    using assms(4,5) inactive handle s2(2) cleanup_char [of ?st2]
    by (simp add: onResponse_def is_ack_def Let_def split: if_splits)
  show "sent (step (Frame socket' r) st')
           = (case subscriptionSocket st' of
                None \<Rightarrow> sent st'
              | Some socket \<Rightarrow>
                  if readyState st' socket = OPEN
                  then sent st' @ [(socket, \<lparr>body_method = ''eth_unsubscribe'',
                                               body_params = JArr [response_result r]\<rparr>)]
                  else sent st')"
    unfolding f using assms(6) s2 cleanup_char [of ?st2]
    by (simp add: track_def split: option.splits)
qed

text \<open>
  The subscription is open on socket 1, socket 2 replaces it, the consumer unsubscribes
  before the open call on socket 2 is acknowledged: nothing is sent then, and the
  acknowledgement \<^verbatim>\<open>0xdef\<close> triggers the teardown of \<^verbatim>\<open>0xdef\<close> on socket 2; if
  socket 2 has started closing before the acknowledgement arrives, nothing is sent.
\<close>

theorem deferred_teardown_on_late_identifier_witness:
  "sent (run [SocketCreated 1, SubscribeSocketResolved, Frame 1 (ack 1 ''0xabc''),
              SocketClosed 1, SocketCreated 2, Unsubscribe]
          (subscribe newHeads True always_open))
     = sent (run [SocketCreated 1, SubscribeSocketResolved, Frame 1 (ack 1 ''0xabc''),
                  SocketClosed 1, SocketCreated 2] (subscribe newHeads True always_open))
   \<and> sent (run [SocketCreated 1, SubscribeSocketResolved, Frame 1 (ack 1 ''0xabc''),
                 SocketClosed 1, SocketCreated 2, Unsubscribe, Frame 2 (ack 1 ''0xdef'')]
             (subscribe newHeads True always_open))
     = sent (run [SocketCreated 1, SubscribeSocketResolved, Frame 1 (ack 1 ''0xabc''),
                  SocketClosed 1, SocketCreated 2] (subscribe newHeads True always_open))
       @ [(2, \<lparr>body_method = ''eth_unsubscribe'', body_params = JArr [JStr ''0xdef'']\<rparr>)]
   \<and> sent (run [SocketCreated 1, SubscribeSocketResolved, Frame 1 (ack 1 ''0xabc''),
                 SocketClosed 1, SocketCreated 2, Unsubscribe, ReadyStateChange 2 CLOSING,
                 Frame 2 (ack 1 ''0xdef'')]
             (subscribe newHeads True always_open))
     = sent (run [SocketCreated 1, SubscribeSocketResolved, Frame 1 (ack 1 ''0xabc''),
                  SocketClosed 1, SocketCreated 2] (subscribe newHeads True always_open))"
proof -
  let ?st = "run [SocketCreated 1, SubscribeSocketResolved, Frame 1 (ack 1 ''0xabc''),
                  SocketClosed 1, SocketCreated 2] (subscribe newHeads True always_open)"
  let ?a = "run [] (step Unsubscribe ?st)"
  let ?b = "run [ReadyStateChange 2 CLOSING] (step Unsubscribe ?st)"
  have h1: "handle_returned ?st" by (simp add: model_defs)
  have h2: "subscriptionId ?st = JUndefined" by (simp add: model_defs)
  have a3: "?a = run [] (step Unsubscribe ?st)" by (rule refl)
  have b3: "?b = run [ReadyStateChange 2 CLOSING] (step Unsubscribe ?st)" by (rule refl)
  have a4: "2 \<in> set (opened ?a)" by (simp add: model_defs)
  have b4: "2 \<in> set (opened ?b)" by (simp add: model_defs)
  have h5: "is_ack (ack 1 ''0xdef'')" by (simp add: model_defs)
  have h6: "response_result (ack 1 ''0xdef'') \<noteq> JUndefined" by (simp add: model_defs)
  show ?thesis
    using deferred_teardown_on_late_identifier [OF h1 h2 a3 a4 h5 h6]
      deferred_teardown_on_late_identifier [OF h1 h2 b3 b4 h5 h6]
    by (simp add: model_defs)
qed

text \<open>
  Claim C2 as stated fails: the consumer unsubscribes before the open call on socket 2 is
  acknowledged, socket 2 starts closing, and the acknowledgement still arrives. The
  identifier is stored and no teardown message is sent.
\<close>

theorem late_identifier_on_closing_socket_sends_nothing:
  "subscriptionId (run [SocketCreated 1, SubscribeSocketResolved, Frame 1 (ack 1 ''0xabc''),
                        SocketClosed 1, SocketCreated 2, Unsubscribe, ReadyStateChange 2 CLOSING,
                        Frame 2 (ack 1 ''0xdef'')]
        (subscribe newHeads True always_open)) = JStr ''0xdef''
   \<and> teardowns (run [SocketCreated 1, SubscribeSocketResolved, Frame 1 (ack 1 ''0xabc''),
                     SocketClosed 1, SocketCreated 2, Unsubscribe, ReadyStateChange 2 CLOSING,
                     Frame 2 (ack 1 ''0xdef'')]
        (subscribe newHeads True always_open)) = []"
  by (simp add: model_defs)

section \<open>Socket creation\<close>








section \<open>The promise returned by \<^verbatim>\<open>subscribe\<close>\<close>

lemma first_response_step_fulfilled:
  assumes "first_response st = Pending" and "first_response (step e st) = Fulfilled r"
  shows "\<exists>socket. e = Frame socket r \<and> socket \<in> set (opened st) \<and> is_ack r"
proof (cases e)
  case (Frame socket r')
  have en: "socket \<in> set (opened st)"
    using assms Frame by (cases "socket \<in> set (opened st)") simp_all
  have ack: "is_ack r'"
    using assms Frame en
    by (cases "is_ack r'")
       (auto simp add: onResponse_def is_ack_def call_onError_def call_onData_def reject_def
          Let_def split: if_splits)
  let ?st2 = "(resolve r' st)\<lparr>subscriptionId := response_result r'\<rparr>"
  have s2: "first_response ?st2 = Fulfilled r'"
    using assms(1) by (simp add: resolve_def)
  have "first_response (step e st) = Fulfilled r'"
    using Frame en ack s2
    by (cases ?st2 rule: cleanup_cases)
       (auto simp add: onResponse_def is_ack_def track_def Let_def call_onError_def)
  then have "r' = r" using assms(2) by simp
  then show ?thesis using Frame en ack by simp
next
  case Unsubscribe
  then show ?thesis using assms by (simp add: handle_returned_def)
qed (use assms in \<open>auto simp add: onSocketCreated_def onSocketClosed_def rpc_webSocket_def
       call_onError_def reject_def Let_def split: if_splits\<close>)

lemma first_response_run_fulfilled:
  "first_response st = Pending \<Longrightarrow> first_response (run evs st) = Fulfilled r \<Longrightarrow>
   \<exists>pre socket post. evs = pre @ Frame socket r # post \<and> is_ack r
      \<and> first_response (run pre st) = Pending
      \<and> socket \<in> set (opened (run pre st))
      \<and> first_response (run (pre @ [Frame socket r]) st) = Fulfilled r
      \<and> subscriptionId (run (pre @ [Frame socket r]) st) = response_result r"
proof (induction evs arbitrary: st)
  case Nil
  then show ?case by simp
next
  case (Cons e evs)
  show ?case
  proof (cases "first_response (step e st) = Pending")
    case True
    have "first_response (run evs (step e st)) = Fulfilled r" using Cons.prems(2) by simp
    from Cons.IH [OF True this] obtain pre socket post where
      "evs = pre @ Frame socket r # post" "is_ack r"
      "first_response (run pre (step e st)) = Pending"
      "socket \<in> set (opened (run pre (step e st)))"
      "first_response (run (pre @ [Frame socket r]) (step e st)) = Fulfilled r"
      "subscriptionId (run (pre @ [Frame socket r]) (step e st)) = response_result r"
      by blast
    then have "e # evs = (e # pre) @ Frame socket r # post \<and> is_ack r
      \<and> first_response (run (e # pre) st) = Pending
      \<and> socket \<in> set (opened (run (e # pre) st))
      \<and> first_response (run ((e # pre) @ [Frame socket r]) st) = Fulfilled r
      \<and> subscriptionId (run ((e # pre) @ [Frame socket r]) st) = response_result r"
      by simp
    then show ?thesis by blast
  next
    case False
    then have "first_response (run evs (step e st)) = first_response (step e st)"
      by (rule first_response_run_settled)
    then have f: "first_response (step e st) = Fulfilled r" using Cons.prems(2) by simp
    from first_response_step_fulfilled [OF Cons.prems(1) f] obtain socket where
      s: "e = Frame socket r" "socket \<in> set (opened st)" "is_ack r" by blast
    have "subscriptionId (step (Frame socket r) st) = response_result r"
      using s(2,3) by (rule subscriptionId_ack)
    then have "e # evs = [] @ Frame socket r # evs \<and> is_ack r
      \<and> first_response (run [] st) = Pending
      \<and> socket \<in> set (opened (run [] st))
      \<and> first_response (run ([] @ [Frame socket r]) st) = Fulfilled r
      \<and> subscriptionId (run ([] @ [Frame socket r]) st) = response_result r"
      using s f Cons.prems(1) by simp
    then show ?thesis by blast
  qed
qed

text \<open>
  Claim C10. If \<^verbatim>\<open>subscribe()\<close> has resolved after a sequence of events, then the sequence
  contains an open-call response without error and with a numeric id, received on a socket
  on which the open call was sent, before which the promise was pending; the promise is
  resolved by that response, and in the state this response leaves, which is the state in
  which the continuation of the \<^verbatim>\<open>await\<close> runs, the subscription identifier is the
  response's result.
\<close>

theorem subscribe_resolves_with_identifier_set:
  assumes "first_response (run evs (subscribe ps with_onError rs)) = Fulfilled r"
  shows "\<exists>pre socket post. evs = pre @ Frame socket r # post \<and> is_ack r
      \<and> first_response (run pre (subscribe ps with_onError rs)) = Pending
      \<and> socket \<in> set (opened (run pre (subscribe ps with_onError rs)))
      \<and> first_response (run (pre @ [Frame socket r]) (subscribe ps with_onError rs)) = Fulfilled r
      \<and> subscriptionId (run (pre @ [Frame socket r]) (subscribe ps with_onError rs))
          = response_result r"
proof -
  have "first_response (subscribe ps with_onError rs) = Pending" by (simp add: subscribe_def)
  then show ?thesis using assms by (rule first_response_run_fulfilled)
qed

text \<open>A push frame before the acknowledgement does not resolve the promise.\<close>

theorem subscribe_resolves_with_identifier_set_witness:
  "first_response (run [SocketCreated 1, Frame 1 (push ''0x0'' JNull), Frame 1 (ack 1 ''0xabc''), SocketCreated 2]
      (subscribe newHeads True always_open)) = Fulfilled (ack 1 ''0xabc'')
   \<and> (\<exists>pre socket post.
        [SocketCreated 1, Frame 1 (push ''0x0'' JNull), Frame 1 (ack 1 ''0xabc''), SocketCreated 2]
          = pre @ Frame socket (ack 1 ''0xabc'') # post
      \<and> is_ack (ack 1 ''0xabc'')
      \<and> first_response (run pre (subscribe newHeads True always_open)) = Pending
      \<and> socket \<in> set (opened (run pre (subscribe newHeads True always_open)))
      \<and> first_response (run (pre @ [Frame socket (ack 1 ''0xabc'')]) (subscribe newHeads True always_open))
          = Fulfilled (ack 1 ''0xabc'')
      \<and> subscriptionId (run (pre @ [Frame socket (ack 1 ''0xabc'')]) (subscribe newHeads True always_open))
          = response_result (ack 1 ''0xabc''))"
proof -
  have h: "first_response (run [SocketCreated 1, Frame 1 (push ''0x0'' JNull), Frame 1 (ack 1 ''0xabc''), SocketCreated 2]
      (subscribe newHeads True always_open)) = Fulfilled (ack 1 ''0xabc'')"
    by (simp add: model_defs)
  show ?thesis
    using h subscribe_resolves_with_identifier_set [OF h] by blast
qed

end
